theory Spec2Isabelle
  imports Main
begin

section \<open>mautrix_appservice/intent_api.py: data model\<close>

text \<open>
  Python objects that are shared and mutated (the connection contexts) live in a store and
  are referred to by address. An Intent is passed and returned explicitly, since no claim
  depends on two references to one Intent.
\<close>

type_synonym addr = nat

text \<open>
  A value produced by \<^verbatim>\<open>json.loads\<close>. A dict is the list of its items (keys unique).
  A float is a mantissa and a binary exponent; numbers are never inspected by the source.
\<close>

datatype json =
    JNull
  | JBool bool
  | JInt int
  | JFloat int int
  | JStr string
  | JArr "json list"
  | JObj "(string \<times> json) list"

text \<open>\<^verbatim>\<open>matrix_client.errors.MatrixRequestError\<close>: the HTTP status and the response text.\<close>

record MatrixRequestError =
  code :: int
  content :: string

text \<open>
  The exceptions that reach the caller. \<open>IntentError\<close> carries its message and its
  \<^verbatim>\<open>source\<close>; \<open>Uncaught\<close> is a \<^verbatim>\<open>MatrixRequestError\<close> that no handler of the source catches.
\<close>

datatype error =
    IntentError string MatrixRequestError
  | ValueError string
  | AttributeError string
  | TypeError string
  | Uncaught MatrixRequestError

text \<open>
  The requests the source sends through the client library, with the arguments it passes:
  \<^verbatim>\<open>register({"username": u})\<close>, \<^verbatim>\<open>join_room(room)\<close>, \<^verbatim>\<open>invite_user(room, mxid)\<close>,
  \<^verbatim>\<open>send_message_event(room, type, body, txn_id, timestamp)\<close> and
  \<^verbatim>\<open>send_state_event(room, type, body, state_key, timestamp)\<close>.
\<close>

datatype request =
    Register string
  | Join_Room string
  | Invite_User string string
  | Send_Message_Event string string "string \<rightharpoonup> json" "string option" "int option"
  | Send_State_Event string string "string \<rightharpoonup> json" string "int option"

text \<open>
  The homeserver behind the client library is an arbitrary state machine: a request sent
  through the connection context at an address (whose \<^verbatim>\<open>_send\<close> adds that context's
  identity to the query) either returns a value or raises
  \<^verbatim>\<open>MatrixRequestError\<close> (the one exception class the source handles; an exception of
  another class passes through every function unchanged and is not modelled).
  \<^verbatim>\<open>json.loads\<close> is a parameter as well: \<open>None\<close> when it raises.
\<close>

record 'w env =
  transport :: "addr \<Rightarrow> request \<Rightarrow> 'w \<Rightarrow> (MatrixRequestError + json) \<times> 'w"
  json_loads :: "string \<Rightarrow> json option"

text \<open>
  The server state together with the requests sent so far, oldest first. \<open>client_call\<close> is
  one call of a method of the client library on the context at \<open>a\<close>.
\<close>

record 'w world =
  srv :: 'w
  trace :: "(addr \<times> request) list"

definition client_call :: "'w env \<Rightarrow> addr \<Rightarrow> request \<Rightarrow> 'w world \<Rightarrow> (MatrixRequestError + json) \<times> 'w world" where
  "client_call E a r w =
     (case transport E a r (srv w) of
        (res, s') \<Rightarrow> (res, w\<lparr>srv := s', trace := trace w @ [(a, r)]\<rparr>))"

subsection \<open>Connection contexts\<close>

text \<open>
  \<^verbatim>\<open>HTTPAPI.__init__\<close> sets every field of the root context. \<^verbatim>\<open>ChildHTTPAPI.__init__\<close> does
  not call it: a derived context has no \<^verbatim>\<open>txn_id\<close>, \<^verbatim>\<open>bot_mxid\<close> or \<^verbatim>\<open>children\<close> attribute of
  its own. A logger is referred to by address.
\<close>

record HTTPAPI =
  base_url :: string
  token :: "string option"
  identity :: "string option"
  txn_id :: int
  bot_mxid :: "string option"
  log :: "addr option"
  validate_cert :: bool
  children :: "string \<rightharpoonup> addr"

record ChildHTTPAPI =
  child_identity :: string
  child_token :: "string option"
  child_base_url :: string
  child_validate_cert :: bool
  child_log :: "addr option"
  parent :: addr

datatype api = Root HTTPAPI | Child ChildHTTPAPI

text \<open>The store: the object at address \<open>a\<close> is the \<open>a\<close>-th element; a new object is appended.\<close>

type_synonym store = "api list"

definition lookup :: "store \<Rightarrow> addr \<Rightarrow> api option" where
  "lookup s a = (if a < length s then Some (s ! a) else None)"

definition HTTPAPI_init :: "string \<Rightarrow> string option \<Rightarrow> string option \<Rightarrow> string option \<Rightarrow> addr option \<Rightarrow> HTTPAPI" where
  "HTTPAPI_init url bmx tok ident lg =
     \<lparr>base_url = url, token = tok, identity = ident, txn_id = 0, bot_mxid = bmx,
      log = lg, validate_cert = True, children = Map.empty\<rparr>"

fun token_of :: "api \<Rightarrow> string option" where
  "token_of (Root r) = token r"
| "token_of (Child c) = child_token c"

fun base_url_of :: "api \<Rightarrow> string" where
  "base_url_of (Root r) = base_url r"
| "base_url_of (Child c) = child_base_url c"

fun validate_cert_of :: "api \<Rightarrow> bool" where
  "validate_cert_of (Root r) = validate_cert r"
| "validate_cert_of (Child c) = child_validate_cert c"

fun log_of :: "api \<Rightarrow> addr option" where
  "log_of (Root r) = log r"
| "log_of (Child c) = child_log c"

fun identity_of :: "api \<Rightarrow> string option" where
  "identity_of (Root r) = identity r"
| "identity_of (Child c) = Some (child_identity c)"

text \<open>\<^verbatim>\<open>ChildHTTPAPI.__init__(self, user, parent)\<close>, given the parent's address and object.\<close>

definition ChildHTTPAPI_init :: "string \<Rightarrow> addr \<Rightarrow> api \<Rightarrow> ChildHTTPAPI" where
  "ChildHTTPAPI_init user p pobj =
     \<lparr>child_identity = user, child_token = token_of pobj, child_base_url = base_url_of pobj,
      child_validate_cert = validate_cert_of pobj, child_log = log_of pobj, parent = p\<rparr>"

text \<open>
  \<^verbatim>\<open>HTTPAPI.user(self, user)\<close>. A derived context inherits the method but has no
  \<^verbatim>\<open>children\<close>: the lookup raises \<^verbatim>\<open>AttributeError\<close>, which the handler for
  \<^verbatim>\<open>KeyError\<close> does not catch.
\<close>

definition HTTPAPI_user :: "store \<Rightarrow> addr \<Rightarrow> string \<Rightarrow> (error + addr) \<times> store" where
  "HTTPAPI_user s a user =
     (case lookup s a of
        None \<Rightarrow> (Inl (AttributeError ''children''), s)
      | Some (Child c) \<Rightarrow> (Inl (AttributeError ''children''), s)
      | Some (Root r) \<Rightarrow>
          (case children r user of
             Some c \<Rightarrow> (Inr c, s)
           | None \<Rightarrow>
               (let c = length s;
                    s1 = s @ [Child (ChildHTTPAPI_init user a (Root r))]
                in (Inr c, s1[a := Root (r\<lparr>children := (children r)(user \<mapsto> c)\<rparr>)]))))"

text \<open>
  A caller that asks the router at \<open>a\<close> for the context of each identifier of a list in
  turn: the store at the end.
\<close>

fun requests :: "store \<Rightarrow> addr \<Rightarrow> string list \<Rightarrow> store" where
  "requests s a [] = s"
| "requests s a (u # us) = requests (snd (HTTPAPI_user s a u)) a us"

text \<open>
  The property \<^verbatim>\<open>ChildHTTPAPI.txn_id\<close>: the getter and the setter go to the parent, where
  \<^verbatim>\<open>txn_id\<close> is again the property when the parent is itself derived. A store in which the
  parent links never reach a root makes the Python recurse without end; here the result is
  \<open>None\<close>, as it is for a dangling address.
\<close>

partial_function (option) txn_id_get :: "store \<Rightarrow> addr \<Rightarrow> int option" where
  "txn_id_get s a =
     (case lookup s a of
        None \<Rightarrow> None
      | Some (Root r) \<Rightarrow> Some (txn_id r)
      | Some (Child c) \<Rightarrow> txn_id_get s (parent c))"

partial_function (option) txn_id_set :: "store \<Rightarrow> addr \<Rightarrow> int \<Rightarrow> store option" where
  "txn_id_set s a v =
     (case lookup s a of
        None \<Rightarrow> None
      | Some (Root r) \<Rightarrow> Some (s[a := Root (r\<lparr>txn_id := v\<rparr>)])
      | Some (Child c) \<Rightarrow> txn_id_set s (parent c) v)"

text \<open>The root that the parent links of a context lead to.\<close>

inductive root_of :: "store \<Rightarrow> addr \<Rightarrow> addr \<Rightarrow> bool" where
  root_of_Root: "lookup s a = Some (Root r) \<Longrightarrow> root_of s a a"
| root_of_Child: "lookup s a = Some (Child c) \<Longrightarrow> root_of s (parent c) r \<Longrightarrow> root_of s a r"

code_pred root_of .

subsection \<open>Intents\<close>

text \<open>
  \<^verbatim>\<open>mxid_regex = re.compile("@(.+):(.+)")\<close> and \<^verbatim>\<open>mxid_regex.search(mxid)\<close>. The pattern
  has no anchor and \<^verbatim>\<open>search\<close> tries every start position from the left. \<^verbatim>\<open>.\<close> is any
  character but the newline; both \<^verbatim>\<open>.+\<close> are greedy, so after the \<^verbatim>\<open>@\<close> the first group
  takes the whole rest of the line and gives characters back one at a time until a colon
  with at least one character of the line after it follows. A \<open>char\<close> is a byte: in UTF-8
  none of \<^verbatim>\<open>@\<close>, \<^verbatim>\<open>:\<close> and the newline occurs inside the encoding of another code point.
\<close>

definition dot :: "char \<Rightarrow> bool" where
  "dot c \<longleftrightarrow> c \<noteq> CHR 0x0A"

text \<open>\<open>backtrack run k\<close>: the longest first group of at most \<open>k\<close> characters that works.\<close>

fun backtrack :: "string \<Rightarrow> nat \<Rightarrow> nat option" where
  "backtrack run 0 = None"
| "backtrack run (Suc k) =
     (if Suc (Suc k) < length run \<and> run ! Suc k = CHR '':'' then Some (Suc k)
      else backtrack run k)"

text \<open>The match that starts at an \<^verbatim>\<open>@\<close>, given the text after it: the two groups.\<close>

definition match_here :: "string \<Rightarrow> (string \<times> string) option" where
  "match_here r =
     (let run = takeWhile dot r
      in case backtrack run (length run) of
           None \<Rightarrow> None
         | Some k \<Rightarrow> Some (take k run, drop (Suc k) run))"

fun mxid_regex_search :: "string \<Rightarrow> (string \<times> string) option" where
  "mxid_regex_search [] = None"
| "mxid_regex_search (c # cs) =
     (if c = CHR ''@'' then
        (case match_here cs of
           Some g \<Rightarrow> Some g
         | None \<Rightarrow> mxid_regex_search cs)
      else mxid_regex_search cs)"

text \<open>
  An Intent. \<^verbatim>\<open>client\<close> and \<^verbatim>\<open>bot\<close> (here \<open>bot_api\<close>) are references to
  connection contexts; \<open>bot_api\<close> is \<open>None\<close> for Python's \<^verbatim>\<open>None\<close>. The fields \<^verbatim>\<open>log\<close> and \<^verbatim>\<open>power_levels\<close> are never read.
\<close>

record IntentAPI =
  client :: addr
  bot_api :: "addr option"
  mxid :: string
  localpart :: string
  memberships :: "string \<rightharpoonup> string"
  registered :: bool

text \<open>\<^verbatim>\<open>IntentAPI.__init__(self, mxid, client, bot=None, log=None)\<close>.\<close>

definition IntentAPI_init :: "string \<Rightarrow> addr \<Rightarrow> addr option \<Rightarrow> error + IntentAPI" where
  "IntentAPI_init m cl b =
     (case mxid_regex_search m of
        None \<Rightarrow> Inl (ValueError ''invalid MXID'')
      | Some (g1, g2) \<Rightarrow>
          Inr \<lparr>client = cl, bot_api = b, mxid = m, localpart = g1,
               memberships = Map.empty, registered = False\<rparr>)"

text \<open>
  \<^verbatim>\<open>HTTPAPI.intent(self, user)\<close>: the argument \<^verbatim>\<open>self.user(user)\<close> is evaluated before the
  constructor runs, and the router itself is passed as \<^verbatim>\<open>bot\<close>.
\<close>

definition HTTPAPI_intent :: "store \<Rightarrow> addr \<Rightarrow> string \<Rightarrow> (error + IntentAPI) \<times> store" where
  "HTTPAPI_intent s a user =
     (case HTTPAPI_user s a user of
        (Inl e, s1) \<Rightarrow> (Inl e, s1)
      | (Inr c, s1) \<Rightarrow> (IntentAPI_init user c (Some a), s1))"

text \<open>
  \<^verbatim>\<open>matrix_error_code(err)\<close>: \<^verbatim>\<open>data["errcode"]\<close> when the content parses to a dict with
  that key; the bare \<^verbatim>\<open>except\<close> returns the content for everything else (a parse error,
  a missing key, a value that is not a dict).
\<close>

definition matrix_error_code :: "'w env \<Rightarrow> MatrixRequestError \<Rightarrow> json" where
  "matrix_error_code E err =
     (case json_loads E (content err) of
        Some (JObj kvs) \<Rightarrow>
          (case map_of kvs ''errcode'' of
             Some v \<Rightarrow> v
           | None \<Rightarrow> JStr (content err))
      | _ \<Rightarrow> JStr (content err))"

text \<open>\<^verbatim>\<open>IntentAPI._ensure_registered(self)\<close>.\<close>

definition ensure_registered :: "'w env \<Rightarrow> IntentAPI \<Rightarrow> 'w world \<Rightarrow> (error + unit) \<times> IntentAPI \<times> 'w world" where
  "ensure_registered E self w =
     (if registered self then (Inr (), self, w)
      else
        (case client_call E (client self) (Register (localpart self)) w of
           (Inl e, w1) \<Rightarrow>
             (if matrix_error_code E e \<noteq> JStr ''M_USER_IN_USE''
              then (Inl (IntentError (''Failed to register '' @ mxid self) e), self, w1)
              else (Inr (), self\<lparr>registered := True\<rparr>, w1))
         | (Inr _, w1) \<Rightarrow> (Inr (), self\<lparr>registered := True\<rparr>, w1)))"

text \<open>
  \<^verbatim>\<open>IntentAPI._ensure_joined(self, room_id, ignore_cache=False)\<close>. With no bot,
  \<^verbatim>\<open>self.bot.invite_user\<close> raises \<^verbatim>\<open>AttributeError\<close> inside the handler; the inner
  handler catches \<^verbatim>\<open>MatrixRequestError\<close> only.
\<close>

definition join_failed :: "string \<Rightarrow> IntentAPI \<Rightarrow> MatrixRequestError \<Rightarrow> error" where
  "join_failed room_id self e =
     IntentError (''Failed to join room '' @ room_id @ '' as '' @ mxid self) e"

definition ensure_joined :: "'w env \<Rightarrow> string \<Rightarrow> bool \<Rightarrow> IntentAPI \<Rightarrow> 'w world \<Rightarrow> (error + unit) \<times> IntentAPI \<times> 'w world" where
  "ensure_joined E room_id ignore_cache self w =
     (if ignore_cache \<and> (case memberships self room_id of None \<Rightarrow> [] | Some m \<Rightarrow> m) = ''join''
      then (Inr (), self, w)
      else
        (case ensure_registered E self w of
           (Inl err, self1, w1) \<Rightarrow> (Inl err, self1, w1)
         | (Inr _, self1, w1) \<Rightarrow>
             (case client_call E (client self1) (Join_Room room_id) w1 of
                (Inr _, w2) \<Rightarrow>
                  (Inr (), self1\<lparr>memberships := (memberships self1)(room_id \<mapsto> ''join'')\<rparr>, w2)
              | (Inl e, w2) \<Rightarrow>
                  (if matrix_error_code E e \<noteq> JStr ''M_FORBIDDEN'' \<and> bot_api self1 = None
                   then (Inl (join_failed room_id self1 e), self1, w2)
                   else
                     (case bot_api self1 of
                        None \<Rightarrow> (Inl (AttributeError ''invite_user''), self1, w2)
                      | Some b \<Rightarrow>
                          (case client_call E b (Invite_User room_id (mxid self1)) w2 of
                             (Inl e2, w3) \<Rightarrow> (Inl (join_failed room_id self1 e2), self1, w3)
                           | (Inr _, w3) \<Rightarrow>
                               (case client_call E (client self1) (Join_Room room_id) w3 of
                                  (Inl e2, w4) \<Rightarrow> (Inl (join_failed room_id self1 e2), self1, w4)
                                | (Inr _, w4) \<Rightarrow>
                                    (Inr (),
                                     self1\<lparr>memberships := (memberships self1)(room_id \<mapsto> ''join'')\<rparr>,
                                     w4))))))))"

text \<open>\<^verbatim>\<open>IntentAPI.join_room(self, room_id)\<close>.\<close>

definition join_room :: "'w env \<Rightarrow> string \<Rightarrow> IntentAPI \<Rightarrow> 'w world \<Rightarrow> (error + unit) \<times> IntentAPI \<times> 'w world" where
  "join_room E room_id self w = ensure_joined E room_id True self w"

text \<open>\<^verbatim>\<open>IntentAPI._ensure_has_power_level_for(self, room_id, event_type)\<close>: \<^verbatim>\<open>pass\<close>.\<close>

definition ensure_has_power_level_for :: "string \<Rightarrow> string \<Rightarrow> IntentAPI \<Rightarrow> unit" where
  "ensure_has_power_level_for room_id event_type self = ()"

text \<open>
  \<^verbatim>\<open>IntentAPI.send_event\<close> and \<^verbatim>\<open>IntentAPI.send_state_event\<close>: an \<^verbatim>\<open>IntentError\<close> of the
  guard ends the call; an error of the final request is not caught.
\<close>

definition send_event :: "'w env \<Rightarrow> string \<Rightarrow> string \<Rightarrow> (string \<rightharpoonup> json) \<Rightarrow> string option \<Rightarrow> int option \<Rightarrow> IntentAPI \<Rightarrow> 'w world \<Rightarrow> (error + json) \<times> IntentAPI \<times> 'w world" where
  "send_event E room_id type body txn timestamp self w =
     (case ensure_joined E room_id False self w of
        (Inl err, self1, w1) \<Rightarrow> (Inl err, self1, w1)
      | (Inr _, self1, w1) \<Rightarrow>
          (let _ = ensure_has_power_level_for room_id type self1
           in case client_call E (client self1) (Send_Message_Event room_id type body txn timestamp) w1 of
                (Inl e, w2) \<Rightarrow> (Inl (Uncaught e), self1, w2)
              | (Inr v, w2) \<Rightarrow> (Inr v, self1, w2)))"

definition send_state_event :: "'w env \<Rightarrow> string \<Rightarrow> string \<Rightarrow> (string \<rightharpoonup> json) \<Rightarrow> string \<Rightarrow> int option \<Rightarrow> IntentAPI \<Rightarrow> 'w world \<Rightarrow> (error + json) \<times> IntentAPI \<times> 'w world" where
  "send_state_event E room_id type body state_key timestamp self w =
     (case ensure_joined E room_id False self w of
        (Inl err, self1, w1) \<Rightarrow> (Inl err, self1, w1)
      | (Inr _, self1, w1) \<Rightarrow>
          (let _ = ensure_has_power_level_for room_id type self1
           in case client_call E (client self1) (Send_State_Event room_id type body state_key timestamp) w1 of
                (Inl e, w2) \<Rightarrow> (Inl (Uncaught e), self1, w2)
              | (Inr v, w2) \<Rightarrow> (Inr v, self1, w2)))"

text \<open>\<^verbatim>\<open>IntentAPI.send_message(self, room_id, body)\<close>.\<close>

definition send_message :: "'w env \<Rightarrow> string \<Rightarrow> (string \<rightharpoonup> json) \<Rightarrow> IntentAPI \<Rightarrow> 'w world \<Rightarrow> (error + json) \<times> IntentAPI \<times> 'w world" where
  "send_message E room_id body self w = send_event E room_id ''m.room.message'' body None None self w"

text \<open>Python's \<^verbatim>\<open>unformatted_text or text\<close>: \<^verbatim>\<open>None\<close> and the empty string are false.\<close>

definition py_or :: "string option \<Rightarrow> string \<Rightarrow> string" where
  "py_or u t = (case u of None \<Rightarrow> t | Some x \<Rightarrow> (if x = [] then t else x))"

text \<open>\<^verbatim>\<open>IntentAPI.send_text(self, room_id, text, html=False, unformatted_text=None, notice=False)\<close>.\<close>

definition send_text :: "'w env \<Rightarrow> string \<Rightarrow> string \<Rightarrow> bool \<Rightarrow> string option \<Rightarrow> bool \<Rightarrow> IntentAPI \<Rightarrow> 'w world \<Rightarrow> (error + json) \<times> IntentAPI \<times> 'w world" where
  "send_text E room_id text html unformatted_text notice self w =
     (if html then
        send_message E room_id
          [''body'' \<mapsto> JStr (py_or unformatted_text text),
           ''msgtype'' \<mapsto> JStr (if notice then ''m.notice'' else ''m.text''),
           ''format'' \<mapsto> JStr ''org.matrix.custom.html'',
           ''formatted_body'' \<mapsto> JStr text]
          self w
      else
        send_message E room_id
          [''body'' \<mapsto> JStr text,
           ''msgtype'' \<mapsto> JStr (if notice then ''m.notice'' else ''m.text'')]
          self w)"

subsection \<open>The identifier form of the specification\<close>

text \<open>
  The specification's "two-part \<^verbatim>\<open>@localpart:domain\<close> form", in its own words and not taken
  from the code: the whole identifier is an \<^verbatim>\<open>@\<close>, a localpart, a colon and a domain, both
  parts non-empty.
\<close>

definition two_part_form :: "string \<Rightarrow> bool" where
  "two_part_form m \<longleftrightarrow> (\<exists>l d. l \<noteq> [] \<and> d \<noteq> [] \<and> m = CHR ''@'' # l @ CHR '':'' # d)"

subsection \<open>A scripted homeserver for the examples\<close>

text \<open>
  The server state is the list of outcomes still to come; each request takes the next one,
  and an exhausted script answers with an empty object.
\<close>

definition err_body :: "string \<Rightarrow> string" where
  \<open>err_body c = ''{"errcode": "'' @ c @ ''"}''\<close>

definition failure :: "int \<Rightarrow> string \<Rightarrow> MatrixRequestError + json" where
  "failure st c = Inl \<lparr>code = st, content = err_body c\<rparr>"

definition example_loads :: "string \<Rightarrow> json option" where
  "example_loads =
     map_of (map (\<lambda>c. (err_body c, JObj [(''errcode'', JStr c)]))
       [''M_FORBIDDEN'', ''M_USER_IN_USE'', ''M_UNKNOWN''])"

definition scripted :: "(MatrixRequestError + json) list env" where
  "scripted =
     \<lparr>transport = (\<lambda>a r q. case q of [] \<Rightarrow> (Inr (JObj []), []) | x # xs \<Rightarrow> (x, xs)),
      json_loads = example_loads\<rparr>"

definition script :: "(MatrixRequestError + json) list \<Rightarrow> (MatrixRequestError + json) list world" where
  "script q = \<lparr>srv = q, trace = []\<rparr>"

text \<open>An Intent for \<^verbatim>\<open>@alice:example.org\<close> on the context at 1, with the router at 0 as bot.\<close>

definition alice :: IntentAPI where
  "alice =
     \<lparr>client = 1, bot_api = Some 0, mxid = ''@alice:example.org'', localpart = ''alice'',
      memberships = Map.empty, registered = False\<rparr>"

text \<open>The same Intent after a successful join of \<^verbatim>\<open>!room:example.org\<close>.\<close>

definition alice_joined :: IntentAPI where
  "alice_joined =
     alice\<lparr>memberships := [''!room:example.org'' \<mapsto> ''join''], registered := True\<rparr>"

text \<open>The bridge bot's own Intent, as \<^verbatim>\<open>HTTPAPI.bot_intent\<close> builds it: no \<^verbatim>\<open>bot\<close>.\<close>

definition bridge_bot :: IntentAPI where
  "bridge_bot =
     \<lparr>client = 0, bot_api = None, mxid = ''@bridge:example.org'', localpart = ''bridge'',
      memberships = Map.empty, registered = True\<rparr>"

text \<open>The router of the examples, alone in the store at address 0.\<close>

definition router :: HTTPAPI where
  "router =
     HTTPAPI_init ''https://matrix.example.org'' (Some ''@bridge:example.org'')
       (Some ''secret'') (Some ''@bridge:example.org'') None"

text \<open>The store after the router has been asked for one derived context, and for a second one.\<close>

definition one_user :: store where
  "one_user = snd (HTTPAPI_user [Root router] 0 ''@alice:example.org'')"

definition two_users :: store where
  "two_users = snd (HTTPAPI_user one_user 0 ''@bob:example.org'')"

subsection \<open>Observations on a run\<close>

fun is_register :: "addr \<times> request \<Rightarrow> bool" where
  "is_register (a, Register u) = True"
| "is_register (a, r) = False"

text \<open>The number of registration requests sent so far.\<close>

definition registrations :: "'w world \<Rightarrow> nat" where
  "registrations w = length (filter is_register (trace w))"

text \<open>
  A caller that runs \<^verbatim>\<open>_ensure_registered\<close> twice on one Intent, catching an error of the
  first call: both outcomes, the Intent and the world at the end.
\<close>

definition ensure_registered_twice :: "'w env \<Rightarrow> IntentAPI \<Rightarrow> 'w world \<Rightarrow> (error + unit) \<times> (error + unit) \<times> IntentAPI \<times> 'w world" where
  "ensure_registered_twice E self w =
     (case ensure_registered E self w of
        (r1, self1, w1) \<Rightarrow>
          (case ensure_registered E self1 w1 of
             (r2, self2, w2) \<Rightarrow> (r1, r2, self2, w2)))"

section \<open>Registration\<close>

lemma client_call_trace: "client_call E a r w = (res, w') \<Longrightarrow> trace w' = trace w @ [(a, r)]"
  by (auto simp: client_call_def split: prod.splits)

lemma client_call_scripted_Cons:
  "client_call scripted a r \<lparr>srv = x # xs, trace = t\<rparr> = (x, \<lparr>srv = xs, trace = t @ [(a, r)]\<rparr>)"
  by (simp add: client_call_def scripted_def)

lemma client_call_scripted_Nil:
  "client_call scripted a r \<lparr>srv = [], trace = t\<rparr> = (Inr (JObj []), \<lparr>srv = [], trace = t @ [(a, r)]\<rparr>)"
  by (simp add: client_call_def scripted_def)

lemma scripted_code:
  "matrix_error_code scripted \<lparr>code = st, content = err_body ''M_FORBIDDEN''\<rparr> = JStr ''M_FORBIDDEN''"
  "matrix_error_code scripted \<lparr>code = st, content = err_body ''M_USER_IN_USE''\<rparr> = JStr ''M_USER_IN_USE''"
  "matrix_error_code scripted \<lparr>code = st, content = err_body ''M_UNKNOWN''\<rparr> = JStr ''M_UNKNOWN''"
  by (simp_all add: matrix_error_code_def scripted_def example_loads_def err_body_def)

lemmas run_scripted =
  client_call_scripted_Cons client_call_scripted_Nil scripted_code script_def failure_def

text \<open>
  Claim C4. When the registration request fails and the error code of the failure is
  \<^verbatim>\<open>M_USER_IN_USE\<close>, \<^verbatim>\<open>_ensure_registered\<close> returns normally and the Intent's
  \<^verbatim>\<open>registered\<close> flag is true afterwards.
\<close>

theorem ensure_registered_user_in_use:
  assumes "\<not> registered self"
    and "client_call E (client self) (Register (localpart self)) w = (Inl e, w1)"
    and "matrix_error_code E e = JStr ''M_USER_IN_USE''"
  shows "ensure_registered E self w = (Inr (), self\<lparr>registered := True\<rparr>, w1)"
  using assms by (simp add: ensure_registered_def)

theorem ensure_registered_user_in_use_witness:
  "ensure_registered scripted alice (script [failure 400 ''M_USER_IN_USE'']) =
     (Inr (), alice\<lparr>registered := True\<rparr>, \<lparr>srv = [], trace = [(1, Register ''alice'')]\<rparr>)"
proof -
  let ?w = "script [failure 400 ''M_USER_IN_USE'']"
  let ?e = "\<lparr>code = 400, content = err_body ''M_USER_IN_USE''\<rparr>"
  let ?w1 = "\<lparr>srv = [], trace = [(1, Register ''alice'')]\<rparr> :: (MatrixRequestError + json) list world"
  have a: "\<not> registered alice"
    by (simp add: alice_def)
  have b: "client_call scripted (client alice) (Register (localpart alice)) ?w = (Inl ?e, ?w1)"
    by (simp add: run_scripted alice_def)
  have c: "matrix_error_code scripted ?e = JStr ''M_USER_IN_USE''"
    by (simp add: run_scripted)
  show ?thesis
    using ensure_registered_user_in_use [OF a b c] .
qed

lemma ensure_registered_flag_set:
  "registered self \<Longrightarrow> ensure_registered E self w = (Inr (), self, w)"
  by (simp add: ensure_registered_def)

lemma ensure_registered_ok:
  assumes "ensure_registered E self w = (Inr u, self1, w1)"
  shows "registered self1" and "registrations w1 \<le> Suc (registrations w)"
  using assms
  by (auto simp: ensure_registered_def registrations_def client_call_def
      split: if_splits prod.splits sum.splits)

lemma ensure_registered_error:
  assumes "ensure_registered E self w = (Inl err, self1, w1)"
  shows "self1 = self" and "\<not> registered self"
    and "\<exists>src. err = IntentError (''Failed to register '' @ mxid self) src"
  using assms
  by (auto simp: ensure_registered_def split: if_splits prod.splits sum.splits)

lemma ensure_registered_attempt:
  "\<not> registered self \<Longrightarrow>
   trace (snd (snd (ensure_registered E self w))) = trace w @ [(client self, Register (localpart self))]"
  by (auto simp: ensure_registered_def client_call_def split: prod.splits sum.splits)

text \<open>
  Claim C10. Whenever \<^verbatim>\<open>_ensure_registered\<close> raises, the exception is an \<^verbatim>\<open>IntentError\<close>
  naming the identity, the Intent is unchanged with its \<^verbatim>\<open>registered\<close> flag still false,
  and a later call on that Intent, in whatever state the server then is, sends the
  registration request again.
\<close>

theorem ensure_registered_error_keeps_flag:
  assumes "ensure_registered E self w = (Inl err, self1, w1)"
  shows "(\<exists>src. err = IntentError (''Failed to register '' @ mxid self) src)
       \<and> self1 = self
       \<and> \<not> registered self1
       \<and> trace (snd (snd (ensure_registered E self1 w2))) =
           trace w2 @ [(client self1, Register (localpart self1))]"
proof -
  have same: "self1 = self" and flag: "\<not> registered self"
    using ensure_registered_error(1,2) [OF assms] by simp_all
  have msg: "\<exists>src. err = IntentError (''Failed to register '' @ mxid self) src"
    using ensure_registered_error(3) [OF assms] .
  from same flag have "\<not> registered self1"
    by simp
  with msg same show ?thesis
    by (simp add: ensure_registered_attempt)
qed

theorem ensure_registered_error_keeps_flag_witness:
  "\<not> registered alice
   \<and> trace (snd (snd (ensure_registered scripted alice (script [failure 500 ''M_UNKNOWN''])))) =
       [(1, Register ''alice'')]"
proof -
  let ?e = "\<lparr>code = 500, content = err_body ''M_UNKNOWN''\<rparr>"
  let ?w1 = "\<lparr>srv = [], trace = [(1, Register ''alice'')]\<rparr> :: (MatrixRequestError + json) list world"
  have run: "ensure_registered scripted alice (script [failure 500 ''M_UNKNOWN'']) =
      (Inl (IntentError (''Failed to register '' @ mxid alice) ?e), alice, ?w1)"
    by (simp add: ensure_registered_def run_scripted alice_def)
  show ?thesis
    using ensure_registered_error_keeps_flag [OF run, of "script [failure 500 ''M_UNKNOWN'']"]
    by (simp add: script_def) (simp add: alice_def)
qed

text \<open>
  Claim C5, as stated: two calls of \<^verbatim>\<open>_ensure_registered\<close> on one Intent send at most one
  registration request. It fails when the first call raises: the server rejects the
  registration twice with \<^verbatim>\<open>M_UNKNOWN\<close> and both calls send the request.
\<close>

theorem ensure_registered_twice_counterexample:
  "\<not> registrations
        (snd (snd (snd (ensure_registered_twice scripted alice
           (script [failure 500 ''M_UNKNOWN'', failure 500 ''M_UNKNOWN''])))))
      \<le> 1"
  by (simp add: ensure_registered_twice_def ensure_registered_def run_scripted alice_def
      registrations_def)

text \<open>
  Claim C5, amended. When the first call returns without an error (the registration
  succeeded or the user already exists), the flag is true, the second call returns at once
  and the two calls together send at most one registration request; and on any Intent whose
  flag is true the call returns at once, leaving the Intent and the world as they were.
\<close>

theorem ensure_registered_idempotent:
  assumes "ensure_registered E self w = (Inr u, self1, w1)"
  shows "registered self1
       \<and> ensure_registered_twice E self w = (Inr u, Inr (), self1, w1)
       \<and> registrations w1 \<le> Suc (registrations w)
       \<and> (\<forall>i v. registered i \<longrightarrow> ensure_registered E i v = (Inr (), i, v))"
proof -
  have flag: "registered self1"
    using ensure_registered_ok(1) [OF assms] .
  have second: "ensure_registered E self1 w1 = (Inr (), self1, w1)"
    using flag by (rule ensure_registered_flag_set)
  have twice: "ensure_registered_twice E self w = (Inr u, Inr (), self1, w1)"
    by (simp add: ensure_registered_twice_def assms second)
  have count: "registrations w1 \<le> Suc (registrations w)"
    using ensure_registered_ok(2) [OF assms] .
  from flag twice count show ?thesis
    by (simp add: ensure_registered_flag_set)
qed

theorem ensure_registered_idempotent_witness:
  "ensure_registered_twice scripted alice (script [Inr (JObj [])]) =
     (Inr (), Inr (), alice\<lparr>registered := True\<rparr>, \<lparr>srv = [], trace = [(1, Register ''alice'')]\<rparr>)
   \<and> ensure_registered scripted alice_joined (script []) = (Inr (), alice_joined, script [])"
proof -
  let ?w1 = "\<lparr>srv = [], trace = [(1, Register ''alice'')]\<rparr> :: (MatrixRequestError + json) list world"
  have run: "ensure_registered scripted alice (script [Inr (JObj [])]) =
      (Inr (), alice\<lparr>registered := True\<rparr>, ?w1)"
    by (simp add: ensure_registered_def run_scripted alice_def)
  have flag: "registered alice_joined"
    by (simp add: alice_joined_def)
  show ?thesis
    using ensure_registered_idempotent [OF run] flag by simp
qed

section \<open>Membership\<close>

lemma ensure_joined_attempt:
  assumes "\<not> (ignore_cache \<and> memberships self room_id = Some ''join'')"
    and "ensure_registered E self w = (Inr u, self1, w1)"
  shows "ensure_joined E room_id ignore_cache self w =
     (case client_call E (client self1) (Join_Room room_id) w1 of
        (Inr v, w2) \<Rightarrow>
          (Inr (), self1\<lparr>memberships := (memberships self1)(room_id \<mapsto> ''join'')\<rparr>, w2)
      | (Inl e, w2) \<Rightarrow>
          (if matrix_error_code E e \<noteq> JStr ''M_FORBIDDEN'' \<and> bot_api self1 = None
           then (Inl (join_failed room_id self1 e), self1, w2)
           else
             (case bot_api self1 of
                None \<Rightarrow> (Inl (AttributeError ''invite_user''), self1, w2)
              | Some b \<Rightarrow>
                  (case client_call E b (Invite_User room_id (mxid self1)) w2 of
                     (Inl e2, w3) \<Rightarrow> (Inl (join_failed room_id self1 e2), self1, w3)
                   | (Inr v, w3) \<Rightarrow>
                       (case client_call E (client self1) (Join_Room room_id) w3 of
                          (Inl e2, w4) \<Rightarrow> (Inl (join_failed room_id self1 e2), self1, w4)
                        | (Inr v, w4) \<Rightarrow>
                            (Inr (),
                             self1\<lparr>memberships := (memberships self1)(room_id \<mapsto> ''join'')\<rparr>,
                             w4))))))"
proof -
  have ng: "\<not> (ignore_cache \<and> (case memberships self room_id of None \<Rightarrow> [] | Some m \<Rightarrow> m) = ''join'')"
    using assms(1) by (auto split: option.splits)
  show ?thesis
    unfolding ensure_joined_def if_not_P [OF ng] assms(2) by simp
qed

text \<open>
  Claim C3. A join attempt is made (the guard did not return early and the registration
  step passed), the join request fails with error code \<^verbatim>\<open>M_FORBIDDEN\<close>, and the Intent
  has a bot. Then, with \<open>ri\<close> the outcome of the bot's invite and \<open>rj\<close> the outcome of a join
  request sent after it: the requests sent after the failed join are exactly one invite of
  this identity to this room through the bot, followed, when the invite succeeded, by exactly
  one more join request; the call succeeds exactly when both succeed, and then the room is
  cached as \<^verbatim>\<open>join\<close>; every failure of the invite or of the second join is raised as an
  \<^verbatim>\<open>IntentError\<close> naming the room and the identity, carrying that failure, and leaves the
  cache as it was.
\<close>

theorem ensure_joined_forbidden_with_bot:
  assumes "\<not> (ignore_cache \<and> memberships self room_id = Some ''join'')"
    and "ensure_registered E self w = (Inr u, self1, w1)"
    and "client_call E (client self1) (Join_Room room_id) w1 = (Inl e, w2)"
    and "matrix_error_code E e = JStr ''M_FORBIDDEN''"
    and "bot_api self1 = Some b"
    and "client_call E b (Invite_User room_id (mxid self1)) w2 = (ri, w3)"
    and "client_call E (client self1) (Join_Room room_id) w3 = (rj, w4)"
    and "ensure_joined E room_id ignore_cache self w = (res, self2, w5)"
  shows "trace w5 =
           trace w2 @ (b, Invite_User room_id (mxid self)) #
             (if isl ri then [] else [(client self, Join_Room room_id)])
       \<and> res =
           (if isl ri
            then Inl (IntentError (''Failed to join room '' @ room_id @ '' as '' @ mxid self) (projl ri))
            else if isl rj
            then Inl (IntentError (''Failed to join room '' @ room_id @ '' as '' @ mxid self) (projl rj))
            else Inr ())
       \<and> memberships self2 room_id =
           (if isl ri \<or> isl rj then memberships self room_id else Some ''join'')"
proof -
  have self1: "client self1 = client self" "mxid self1 = mxid self"
    "memberships self1 = memberships self"
    using assms(2)
    by (auto simp: ensure_registered_def split: if_splits prod.splits sum.splits)
  have t3: "trace w3 = trace w2 @ [(b, Invite_User room_id (mxid self))]"
    using client_call_trace [OF assms(6)] self1 by simp
  have t4: "trace w4 = trace w3 @ [(client self, Join_Room room_id)]"
    using client_call_trace [OF assms(7)] self1 by simp
  note run = ensure_joined_attempt [OF assms(1,2), unfolded assms(3), simplified,
      unfolded assms(4,5), simplified, unfolded assms(6), simplified]
  show ?thesis
  proof (cases ri)
    case (Inl e2)
    with run assms(8) have "res = Inl (join_failed room_id self1 e2)" "w5 = w3" "self2 = self1"
      by simp_all
    with Inl t3 self1 show ?thesis
      by (simp add: join_failed_def)
  next
    case invited: (Inr v)
    show ?thesis
    proof (cases rj)
      case (Inl e2)
      with run invited assms(7,8)
      have "res = Inl (join_failed room_id self1 e2)" "w5 = w4" "self2 = self1"
        by simp_all
      with Inl invited t3 t4 self1 show ?thesis
        by (simp add: join_failed_def)
    next
      case (Inr v2)
      with run invited assms(7,8)
      have "res = Inr ()" "w5 = w4"
        "self2 = self1\<lparr>memberships := (memberships self1)(room_id \<mapsto> ''join'')\<rparr>"
        by simp_all
      with Inr invited t3 t4 show ?thesis
        by simp
    qed
  qed
qed

theorem ensure_joined_forbidden_with_bot_witness:
  "ensure_joined scripted ''!room:example.org'' False alice
     (script [Inr (JObj []), failure 403 ''M_FORBIDDEN'', Inr (JObj []), Inr (JObj [])]) =
   (Inr (),
    alice\<lparr>memberships := [''!room:example.org'' \<mapsto> ''join''], registered := True\<rparr>,
    \<lparr>srv = [],
     trace = [(1, Register ''alice''), (1, Join_Room ''!room:example.org''),
              (0, Invite_User ''!room:example.org'' ''@alice:example.org''),
              (1, Join_Room ''!room:example.org'')]\<rparr>)"
proof -
  let ?room = "''!room:example.org''"
  let ?ok = "Inr (JObj []) :: MatrixRequestError + json"
  let ?w = "script [?ok, failure 403 ''M_FORBIDDEN'', ?ok, ?ok]"
  let ?self1 = "alice\<lparr>registered := True\<rparr>"
  let ?e = "\<lparr>code = 403, content = err_body ''M_FORBIDDEN''\<rparr>"
  let ?t1 = "[(1, Register ''alice'')] :: (addr \<times> request) list"
  let ?t2 = "?t1 @ [(1, Join_Room ?room)]"
  let ?t3 = "?t2 @ [(0, Invite_User ?room ''@alice:example.org'')]"
  let ?t4 = "?t3 @ [(1, Join_Room ?room)]"
  let ?w1 = "\<lparr>srv = [failure 403 ''M_FORBIDDEN'', ?ok, ?ok], trace = ?t1\<rparr>"
  let ?w2 = "\<lparr>srv = [?ok, ?ok], trace = ?t2\<rparr>"
  let ?w3 = "\<lparr>srv = [?ok], trace = ?t3\<rparr>"
  let ?w4 = "\<lparr>srv = [] :: (MatrixRequestError + json) list, trace = ?t4\<rparr>"
  let ?self2 = "?self1\<lparr>memberships := (memberships ?self1)(?room \<mapsto> ''join'')\<rparr>"
  have h1: "\<not> (False \<and> memberships alice ?room = Some ''join'')"
    by simp
  have h2: "ensure_registered scripted alice ?w = (Inr (), ?self1, ?w1)"
    by (simp add: ensure_registered_def run_scripted alice_def)
  have h3: "client_call scripted (client ?self1) (Join_Room ?room) ?w1 = (Inl ?e, ?w2)"
    by (simp add: run_scripted alice_def)
  have h4: "matrix_error_code scripted ?e = JStr ''M_FORBIDDEN''"
    by (simp add: run_scripted)
  have h5: "bot_api ?self1 = Some 0"
    by (simp add: alice_def)
  have h6: "client_call scripted 0 (Invite_User ?room (mxid ?self1)) ?w2 = (?ok, ?w3)"
    by (simp add: run_scripted alice_def)
  have h7: "client_call scripted (client ?self1) (Join_Room ?room) ?w3 = (?ok, ?w4)"
    by (simp add: run_scripted alice_def)
  have h8: "ensure_joined scripted ?room False alice ?w = (Inr (), ?self2, ?w4)"
    by (simp add: ensure_joined_def ensure_registered_def run_scripted alice_def)
  have "trace ?w4 = trace ?w2 @ (0, Invite_User ?room (mxid alice)) #
          (if isl ?ok then [] else [(client alice, Join_Room ?room)])
      \<and> memberships ?self2 ?room = Some ''join''"
    using ensure_joined_forbidden_with_bot [OF h1 h2 h3 h4 h5 h6 h7 h8] by simp
  with h8 show ?thesis
    by (simp add: alice_def)
qed

text \<open>
  Claim C1 in the code. The guard of \<^verbatim>\<open>_ensure_joined\<close> returns early when
  \<^verbatim>\<open>ignore_cache\<close> is true and the room is cached as \<^verbatim>\<open>join\<close>: \<^verbatim>\<open>join_room\<close> on a
  registered Intent whose cache holds the room sends no request at all, where the claim has
  it send a join request; and \<^verbatim>\<open>send_event\<close> and \<^verbatim>\<open>send_state_event\<close> on that Intent send a
  join request before the event, where the claim has them send none.
\<close>

theorem join_room_cached_sends_nothing:
  "join_room scripted ''!room:example.org'' alice_joined (script []) =
     (Inr (), alice_joined, script [])
   \<and> trace (snd (snd (send_event scripted ''!room:example.org'' ''m.room.message''
        [''body'' \<mapsto> JStr ''hi''] None None alice_joined (script [])))) =
     [(1, Join_Room ''!room:example.org''),
      (1, Send_Message_Event ''!room:example.org'' ''m.room.message''
            [''body'' \<mapsto> JStr ''hi''] None None)]
   \<and> trace (snd (snd (send_state_event scripted ''!room:example.org'' ''m.room.topic''
        [''topic'' \<mapsto> JStr ''hi''] [] None alice_joined (script [])))) =
     [(1, Join_Room ''!room:example.org''),
      (1, Send_State_Event ''!room:example.org'' ''m.room.topic''
            [''topic'' \<mapsto> JStr ''hi''] [] None)]"
  by (simp add: join_room_def send_event_def send_state_event_def ensure_joined_def
      ensure_registered_def ensure_has_power_level_for_def run_scripted alice_joined_def alice_def)

text \<open>
  Claim C2 in the code. The failure is raised at once only when it is not
  \<^verbatim>\<open>M_FORBIDDEN\<close> and there is no bot as well. With a bot, a join that fails with
  \<^verbatim>\<open>M_UNKNOWN\<close> is followed by an invite through the bot and a second join, and the call
  succeeds. Without a bot, a join that fails with \<^verbatim>\<open>M_FORBIDDEN\<close> ends in the
  \<^verbatim>\<open>AttributeError\<close> of \<^verbatim>\<open>None.invite_user\<close>, not in an \<^verbatim>\<open>IntentError\<close>.
\<close>

theorem ensure_joined_invites_on_other_failure:
  "ensure_joined scripted ''!room:example.org'' False alice
     (script [Inr (JObj []), failure 500 ''M_UNKNOWN'', Inr (JObj []), Inr (JObj [])]) =
   (Inr (),
    alice\<lparr>memberships := [''!room:example.org'' \<mapsto> ''join''], registered := True\<rparr>,
    \<lparr>srv = [],
     trace = [(1, Register ''alice''), (1, Join_Room ''!room:example.org''),
              (0, Invite_User ''!room:example.org'' ''@alice:example.org''),
              (1, Join_Room ''!room:example.org'')]\<rparr>)
   \<and> ensure_joined scripted ''!room:example.org'' False bridge_bot
       (script [failure 403 ''M_FORBIDDEN'']) =
     (Inl (AttributeError ''invite_user''), bridge_bot,
      \<lparr>srv = [], trace = [(0, Join_Room ''!room:example.org'')]\<rparr>)"
  by (simp add: ensure_joined_def ensure_registered_def run_scripted alice_def bridge_bot_def)

section \<open>Message bodies\<close>

text \<open>
  Claim C9. \<^verbatim>\<open>send_text\<close> is \<^verbatim>\<open>send_event\<close> with the event type \<^verbatim>\<open>m.room.message\<close>, no
  transaction id and no timestamp, on a body that is: without \<^verbatim>\<open>html\<close>, \<^verbatim>\<open>body\<close> the text
  and \<^verbatim>\<open>msgtype\<close> \<^verbatim>\<open>m.text\<close>, or \<^verbatim>\<open>m.notice\<close> with \<^verbatim>\<open>notice\<close>; with \<^verbatim>\<open>html\<close>, \<^verbatim>\<open>body\<close> the
  unformatted text, or the text when that is absent or empty, the same \<^verbatim>\<open>msgtype\<close>,
  \<^verbatim>\<open>format\<close> \<^verbatim>\<open>org.matrix.custom.html\<close> and \<^verbatim>\<open>formatted_body\<close> the text.
\<close>

theorem send_text_body:
  "send_text E room text False u False self w =
     send_event E room ''m.room.message''
       [''body'' \<mapsto> JStr text, ''msgtype'' \<mapsto> JStr ''m.text''] None None self w
   \<and> send_text E room text False u True self w =
     send_event E room ''m.room.message''
       [''body'' \<mapsto> JStr text, ''msgtype'' \<mapsto> JStr ''m.notice''] None None self w
   \<and> send_text E room text True u False self w =
     send_event E room ''m.room.message''
       [''body'' \<mapsto> JStr (py_or u text), ''msgtype'' \<mapsto> JStr ''m.text'',
        ''format'' \<mapsto> JStr ''org.matrix.custom.html'', ''formatted_body'' \<mapsto> JStr text]
       None None self w
   \<and> send_text E room text True u True self w =
     send_event E room ''m.room.message''
       [''body'' \<mapsto> JStr (py_or u text), ''msgtype'' \<mapsto> JStr ''m.notice'',
        ''format'' \<mapsto> JStr ''org.matrix.custom.html'', ''formatted_body'' \<mapsto> JStr text]
       None None self w
   \<and> py_or None text = text
   \<and> py_or (Some []) text = text
   \<and> py_or (Some (c # cs)) text = c # cs"
  by (simp add: send_text_def send_message_def py_or_def)

section \<open>Connection contexts\<close>

lemma lookup_update:
  "lookup (s[r := x]) a = (if a < length s then (if a = r then Some x else lookup s a) else None)"
  by (simp add: lookup_def)

lemma HTTPAPI_user_cached:
  "lookup s a = Some (Root r) \<Longrightarrow> children r user = Some c \<Longrightarrow> HTTPAPI_user s a user = (Inr c, s)"
  by (simp add: HTTPAPI_user_def)

lemma HTTPAPI_user_new:
  assumes "lookup s a = Some (Root r)" and "children r user = None"
  shows "HTTPAPI_user s a user =
     (Inr (length s),
      (s @ [Child (ChildHTTPAPI_init user a (Root r))])
        [a := Root (r\<lparr>children := (children r)(user \<mapsto> length s)\<rparr>)])"
  using assms by (simp add: HTTPAPI_user_def Let_def)

lemma HTTPAPI_user_step:
  assumes "lookup s a = Some (Root r)"
  shows "\<exists>c. HTTPAPI_user s a u = (Inr c, snd (HTTPAPI_user s a u))
       \<and> (children r u = Some c \<or> children r u = None \<and> c = length s)
       \<and> lookup (snd (HTTPAPI_user s a u)) a = Some (Root (r\<lparr>children := (children r)(u \<mapsto> c)\<rparr>))
       \<and> length s \<le> length (snd (HTTPAPI_user s a u))
       \<and> (\<forall>b. b < length s \<and> b \<noteq> a \<longrightarrow> lookup (snd (HTTPAPI_user s a u)) b = lookup s b)"
proof (cases "children r u")
  case (Some c)
  have "(children r)(u \<mapsto> c) = children r"
    using Some by (rule map_upd_triv)
  then show ?thesis
    using HTTPAPI_user_cached [OF assms Some] assms Some by simp
next
  case None
  have a: "a < length s"
    using assms by (simp add: lookup_def split: if_splits)
  show ?thesis
    using HTTPAPI_user_new [OF assms None] None a
    by (simp add: lookup_def nth_append)
qed

lemma requests_keeps_entry:
  "lookup s a = Some (Root r) \<Longrightarrow> children r user = Some c \<Longrightarrow>
   \<exists>r'. lookup (requests s a us) a = Some (Root r') \<and> children r' user = Some c"
proof (induction us arbitrary: s r)
  case Nil
  then show ?case by simp
next
  case (Cons u us)
  from HTTPAPI_user_step [OF Cons.prems(1), of u] obtain d where
    d: "children r u = Some d \<or> children r u = None \<and> d = length s"
    and root: "lookup (snd (HTTPAPI_user s a u)) a = Some (Root (r\<lparr>children := (children r)(u \<mapsto> d)\<rparr>))"
    by blast
  have "children (r\<lparr>children := (children r)(u \<mapsto> d)\<rparr>) user = Some c"
    using d Cons.prems(2) by auto
  from Cons.IH [OF root this] show ?case
    by simp
qed

lemma requests_keeps_object:
  "lookup s a = Some (Root r) \<Longrightarrow> b < length s \<Longrightarrow> b \<noteq> a \<Longrightarrow>
   lookup (requests s a us) b = lookup s b"
proof (induction us arbitrary: s r)
  case Nil
  then show ?case by simp
next
  case (Cons u us)
  from HTTPAPI_user_step [OF Cons.prems(1), of u] obtain d where
    root: "lookup (snd (HTTPAPI_user s a u)) a = Some (Root (r\<lparr>children := (children r)(u \<mapsto> d)\<rparr>))"
    and len: "length s \<le> length (snd (HTTPAPI_user s a u))"
    and same: "\<forall>b. b < length s \<and> b \<noteq> a \<longrightarrow> lookup (snd (HTTPAPI_user s a u)) b = lookup s b"
    by blast
  have "b < length (snd (HTTPAPI_user s a u))"
    using len Cons.prems(2) by simp
  from Cons.IH [OF root this Cons.prems(3)] same Cons.prems(2,3) show ?case
    by simp
qed

lemma one_user_eq:
  "one_user =
     [Root (router\<lparr>children := [''@alice:example.org'' \<mapsto> 1]\<rparr>),
      Child \<lparr>child_identity = ''@alice:example.org'', child_token = Some ''secret'',
             child_base_url = ''https://matrix.example.org'', child_validate_cert = True,
             child_log = None, parent = 0\<rparr>]"
  by (simp add: one_user_def HTTPAPI_user_def lookup_def router_def HTTPAPI_init_def
      ChildHTTPAPI_init_def Let_def)

lemma two_users_eq:
  "two_users =
     [Root (router\<lparr>children := [''@alice:example.org'' \<mapsto> 1, ''@bob:example.org'' \<mapsto> 2]\<rparr>),
      Child \<lparr>child_identity = ''@alice:example.org'', child_token = Some ''secret'',
             child_base_url = ''https://matrix.example.org'', child_validate_cert = True,
             child_log = None, parent = 0\<rparr>,
      Child \<lparr>child_identity = ''@bob:example.org'', child_token = Some ''secret'',
             child_base_url = ''https://matrix.example.org'', child_validate_cert = True,
             child_log = None, parent = 0\<rparr>]"
  by (simp add: two_users_def one_user_def HTTPAPI_user_def lookup_def router_def HTTPAPI_init_def
      ChildHTTPAPI_init_def Let_def numeral_2_eq_2)

text \<open>
  Claim C7, as stated, has a new derived context copy the parent's identity override. The
  context the router at 0 creates for \<^verbatim>\<open>@alice:example.org\<close> has that user as its
  identity, while the router's own identity is \<^verbatim>\<open>@bridge:example.org\<close>.
\<close>

theorem child_identity_counterexample:
  "map_option identity_of (lookup (snd (HTTPAPI_user [Root router] 0 ''@alice:example.org'')) 1)
     = Some (Some ''@alice:example.org'')
   \<and> identity_of (Root router) = Some ''@bridge:example.org''"
  by (simp add: HTTPAPI_user_def lookup_def router_def HTTPAPI_init_def ChildHTTPAPI_init_def
      Let_def)

text \<open>
  Claim C7, amended. On a router (a root context in the store) \<^verbatim>\<open>user\<close> never fails, and
  asking twice for the same identifier returns the same address both times, the second call
  leaving the store as the first one left it; \<^verbatim>\<open>intent\<close> called twice builds both Intents on
  that one context. The call changes the router's cache by the one entry for this identifier
  and nothing else: every entry that was there stays, no other object of the store is
  touched, and a hit leaves the store as it was. Whatever identifiers the router is asked
  for afterwards, asking for this one again returns the same address and changes nothing.
  A context that is newly created is the next object of the store and stays as created; it
  copies the parent's token, base URL, certificate setting and logger, refers to the parent,
  and has the requested identifier (not the parent's) as its identity.
\<close>

theorem HTTPAPI_user_memoized:
  assumes "lookup s a = Some (Root r)"
    and "HTTPAPI_user s a user = (res1, s1)"
    and "HTTPAPI_user s1 a user = (res2, s2)"
  shows "\<exists>c. res1 = Inr c \<and> res2 = Inr c \<and> s2 = s1
       \<and> HTTPAPI_intent s a user = (IntentAPI_init user c (Some a), s1)
       \<and> HTTPAPI_intent s1 a user = (IntentAPI_init user c (Some a), s1)
       \<and> (children r user = None \<longrightarrow>
            c = length s \<and>
            lookup s1 c =
              Some (Child \<lparr>child_identity = user, child_token = token r,
                           child_base_url = base_url r, child_validate_cert = validate_cert r,
                           child_log = log r, parent = a\<rparr>) \<and>
            (\<forall>us. lookup (requests s1 a us) c = lookup s1 c))
       \<and> (\<forall>d. children r user = Some d \<longrightarrow> c = d \<and> s1 = s)
       \<and> lookup s1 a = Some (Root (r\<lparr>children := (children r)(user \<mapsto> c)\<rparr>))
       \<and> (\<forall>b. b < length s \<and> b \<noteq> a \<longrightarrow> lookup s1 b = lookup s b)
       \<and> (\<forall>us. HTTPAPI_user (requests s1 a us) a user = (Inr c, requests s1 a us))"
proof -
  from HTTPAPI_user_step [OF assms(1), of user] assms(2) obtain c where
    res1: "res1 = Inr c"
    and c: "children r user = Some c \<or> children r user = None \<and> c = length s"
    and root: "lookup s1 a = Some (Root (r\<lparr>children := (children r)(user \<mapsto> c)\<rparr>))"
    and same: "\<forall>b. b < length s \<and> b \<noteq> a \<longrightarrow> lookup s1 b = lookup s b"
    by auto
  let ?r' = "r\<lparr>children := (children r)(user \<mapsto> c)\<rparr>"
  have entry: "children ?r' user = Some c"
    by simp
  have second: "res2 = Inr c" "s2 = s1"
    using HTTPAPI_user_cached [OF root entry] assms(3) by simp_all
  have later: "HTTPAPI_user (requests s1 a us) a user = (Inr c, requests s1 a us)" for us
  proof -
    from requests_keeps_entry [OF root entry, of us] obtain r2 where
      "lookup (requests s1 a us) a = Some (Root r2)" "children r2 user = Some c"
      by blast
    then show ?thesis
      by (rule HTTPAPI_user_cached)
  qed
  have a: "a < length s"
    using assms(1) by (simp add: lookup_def split: if_splits)
  have cached: "c = d \<and> s1 = s" if "children r user = Some d" for d
    using HTTPAPI_user_cached [OF assms(1) that] assms(2) res1 by simp
  have new: "c = length s \<and>
      lookup s1 c =
        Some (Child \<lparr>child_identity = user, child_token = token r,
                     child_base_url = base_url r, child_validate_cert = validate_cert r,
                     child_log = log r, parent = a\<rparr>) \<and>
      (\<forall>us. lookup (requests s1 a us) c = lookup s1 c)" if none: "children r user = None"
  proof -
    have s1: "s1 = (s @ [Child (ChildHTTPAPI_init user a (Root r))])
        [a := Root (r\<lparr>children := (children r)(user \<mapsto> length s)\<rparr>)]"
      and cl: "c = length s"
      using HTTPAPI_user_new [OF assms(1) none] assms(2) res1 by simp_all
    have child: "lookup s1 c = Some (Child (ChildHTTPAPI_init user a (Root r)))"
      using a s1 cl by (simp add: lookup_def nth_append)
    have "c < length s1" "c \<noteq> a"
      using a s1 cl by simp_all
    then have "lookup (requests s1 a us) c = lookup s1 c" for us
      using requests_keeps_object [OF root] by blast
    with cl child show ?thesis
      by (simp add: ChildHTTPAPI_init_def)
  qed
  have i1: "HTTPAPI_intent s a user = (IntentAPI_init user c (Some a), s1)"
    using assms(2) res1 by (simp add: HTTPAPI_intent_def)
  have i2: "HTTPAPI_intent s1 a user = (IntentAPI_init user c (Some a), s1)"
    using assms(3) second by (simp add: HTTPAPI_intent_def)
  have c6: "children r user = None \<longrightarrow>
            c = length s \<and>
            lookup s1 c =
              Some (Child \<lparr>child_identity = user, child_token = token r,
                           child_base_url = base_url r, child_validate_cert = validate_cert r,
                           child_log = log r, parent = a\<rparr>) \<and>
            (\<forall>us. lookup (requests s1 a us) c = lookup s1 c)"
    using new by (rule impI)
  have c7: "\<forall>d. children r user = Some d \<longrightarrow> c = d \<and> s1 = s"
    using cached by (intro allI impI)
  have c10: "\<forall>us. HTTPAPI_user (requests s1 a us) a user = (Inr c, requests s1 a us)"
    using later by (rule allI)
  from res1 second(1) second(2) i1 i2 c6 c7 root same c10 show ?thesis
    apply -
    apply (rule exI [of _ c])
    apply (intro conjI)
    apply assumption+
    done
qed

theorem HTTPAPI_user_memoized_witness:
  "HTTPAPI_user [Root router] 0 ''@alice:example.org'' = (Inr 1, one_user)
   \<and> HTTPAPI_user one_user 0 ''@alice:example.org'' = (Inr 1, one_user)
   \<and> HTTPAPI_user one_user 0 ''@bob:example.org'' = (Inr 2, two_users)
   \<and> HTTPAPI_user two_users 0 ''@alice:example.org'' = (Inr 1, two_users)
   \<and> HTTPAPI_intent [Root router] 0 ''@alice:example.org'' =
       (IntentAPI_init ''@alice:example.org'' 1 (Some 0), one_user)
   \<and> HTTPAPI_intent one_user 0 ''@alice:example.org'' =
       (IntentAPI_init ''@alice:example.org'' 1 (Some 0), one_user)
   \<and> lookup one_user 1 =
       Some (Child \<lparr>child_identity = ''@alice:example.org'', child_token = token router,
                    child_base_url = base_url router, child_validate_cert = validate_cert router,
                    child_log = log router, parent = 0\<rparr>)
   \<and> lookup two_users 1 = lookup one_user 1"
proof -
  let ?u = "''@alice:example.org''"
  have h1: "lookup [Root router] 0 = Some (Root router)"
    by (simp add: lookup_def)
  have none: "children router ?u = None"
    by (simp add: router_def HTTPAPI_init_def)
  have h2: "HTTPAPI_user [Root router] 0 ?u = (Inr 1, one_user)"
    by (simp add: one_user_eq)
       (simp add: HTTPAPI_user_def lookup_def router_def HTTPAPI_init_def ChildHTTPAPI_init_def
         Let_def)
  have h3: "HTTPAPI_user one_user 0 ?u = (Inr 1, one_user)"
    by (simp add: one_user_eq HTTPAPI_user_def lookup_def)
  have bob: "HTTPAPI_user one_user 0 ''@bob:example.org'' = (Inr 2, two_users)"
    by (simp add: two_users_eq)
       (simp add: one_user_eq HTTPAPI_user_def lookup_def router_def HTTPAPI_init_def
         ChildHTTPAPI_init_def Let_def numeral_2_eq_2)
  have later: "requests one_user 0 [''@bob:example.org''] = two_users"
    by (simp add: two_users_def)
  from HTTPAPI_user_memoized [OF h1 h2 h3] obtain c where
    c: "Inr 1 = (Inr c :: error + addr)"
    and i1: "HTTPAPI_intent [Root router] 0 ?u = (IntentAPI_init ?u c (Some 0), one_user)"
    and i2: "HTTPAPI_intent one_user 0 ?u = (IntentAPI_init ?u c (Some 0), one_user)"
    and new: "children router ?u = None \<longrightarrow>
       c = length [Root router] \<and>
       lookup one_user c =
         Some (Child \<lparr>child_identity = ?u, child_token = token router,
                      child_base_url = base_url router, child_validate_cert = validate_cert router,
                      child_log = log router, parent = 0\<rparr>) \<and>
       (\<forall>us. lookup (requests one_user 0 us) c = lookup one_user c)"
    and again: "\<forall>us. HTTPAPI_user (requests one_user 0 us) 0 ?u = (Inr c, requests one_user 0 us)"
    by (elim exE conjE)
  from c have c1: "c = 1"
    by simp
  from new none have child: "lookup one_user c =
         Some (Child \<lparr>child_identity = ?u, child_token = token router,
                      child_base_url = base_url router, child_validate_cert = validate_cert router,
                      child_log = log router, parent = 0\<rparr>)"
    and obj: "\<forall>us. lookup (requests one_user 0 us) c = lookup one_user c"
    by blast+
  have a2: "HTTPAPI_user two_users 0 ?u = (Inr c, two_users)"
    using again [rule_format, of "[''@bob:example.org'']"] unfolding later .
  have o2: "lookup two_users c = lookup one_user c"
    using obj [rule_format, of "[''@bob:example.org'']"] unfolding later .
  from h2 h3 bob a2 i1 i2 child o2 show ?thesis
    unfolding c1 by (intro conjI)
qed

lemma txn_id_get_root_of:
  "root_of s a r \<Longrightarrow> \<exists>R. lookup s r = Some (Root R) \<and> txn_id_get s a = Some (txn_id R)"
proof (induction rule: root_of.induct)
  case (root_of_Root s a r)
  then show ?case by (subst txn_id_get.simps) simp
next
  case (root_of_Child s a c r)
  then show ?case by (subst txn_id_get.simps) simp
qed

lemma txn_id_set_root_of:
  "root_of s a r \<Longrightarrow>
   \<exists>R. lookup s r = Some (Root R) \<and> txn_id_set s a v = Some (s[r := Root (R\<lparr>txn_id := v\<rparr>)])"
proof (induction rule: root_of.induct)
  case (root_of_Root s a r)
  then show ?case by (subst txn_id_set.simps) simp
next
  case (root_of_Child s a c r)
  then show ?case by (subst txn_id_set.simps) simp
qed

lemma root_of_update:
  "root_of s a r' \<Longrightarrow> lookup s r = Some (Root R) \<Longrightarrow> root_of (s[r := Root R']) a r'"
proof (induction rule: root_of.induct)
  case (root_of_Root s a r0)
  then show ?case
    by (cases "a = r") (auto simp: lookup_update lookup_def intro: root_of.root_of_Root split: if_splits)
next
  case (root_of_Child s a c r0)
  from root_of_Child.hyps(1) root_of_Child.prems have "a \<noteq> r" by auto
  with root_of_Child.hyps(1) have "lookup (s[r := Root R']) a = Some (Child c)"
    by (auto simp: lookup_update lookup_def split: if_splits)
  then show ?case
    using root_of_Child.IH [OF root_of_Child.prems] by (rule root_of.root_of_Child)
qed

text \<open>
  Claim C8. For a context whose parent links lead to the root \<open>r\<close>: reading its
  \<^verbatim>\<open>txn_id\<close> returns the counter stored in the root object; writing it changes the store at
  the root's address only, to the root object with the new counter; every context with the
  same root reads the root's counter before the write and the written value after it. A
  derived context has no counter field of its own.
\<close>

theorem txn_id_shared:
  assumes "root_of s a r"
  shows "\<exists>R. lookup s r = Some (Root R)
       \<and> txn_id_get s a = Some (txn_id R)
       \<and> txn_id_set s a v = Some (s[r := Root (R\<lparr>txn_id := v\<rparr>)])
       \<and> (\<forall>b. root_of s b r \<longrightarrow> txn_id_get s b = Some (txn_id R))
       \<and> (\<forall>b. root_of s b r \<longrightarrow> txn_id_get (s[r := Root (R\<lparr>txn_id := v\<rparr>)]) b = Some v)"
proof -
  from txn_id_get_root_of [OF assms] obtain R where
    R: "lookup s r = Some (Root R)" and g: "txn_id_get s a = Some (txn_id R)"
    by blast
  let ?s' = "s[r := Root (R\<lparr>txn_id := v\<rparr>)]"
  have st: "txn_id_set s a v = Some ?s'"
    using txn_id_set_root_of [OF assms, of v] R by simp
  have all: "txn_id_get s b = Some (txn_id R)" if "root_of s b r" for b
    using txn_id_get_root_of [OF that] R by simp
  have r': "lookup ?s' r = Some (Root (R\<lparr>txn_id := v\<rparr>))"
    using R by (simp add: lookup_def split: if_splits)
  have after: "txn_id_get ?s' b = Some v" if "root_of s b r" for b
    using txn_id_get_root_of [OF root_of_update [OF that R, of "R\<lparr>txn_id := v\<rparr>"]] r' by simp
  from R g st all after show ?thesis
    by blast
qed

theorem txn_id_shared_witness:
  "root_of two_users 1 0 \<and> root_of two_users 2 0
   \<and> txn_id_get two_users 1 = Some 0
   \<and> txn_id_get two_users 2 = Some 0
   \<and> (\<exists>R. txn_id_set two_users 1 7 = Some (two_users[0 := Root (R\<lparr>txn_id := 7\<rparr>)])
        \<and> txn_id_get (two_users[0 := Root (R\<lparr>txn_id := 7\<rparr>)]) 2 = Some 7)"
proof -
  let ?R = "router\<lparr>children := [''@alice:example.org'' \<mapsto> 1, ''@bob:example.org'' \<mapsto> 2]\<rparr>"
  have root: "lookup two_users 0 = Some (Root ?R)"
    by (simp add: two_users_eq lookup_def)
  have "root_of two_users 0 0"
    using root by (rule root_of_Root)
  then have r1: "root_of two_users 1 0" and r2: "root_of two_users 2 0"
    by (auto simp: two_users_eq lookup_def intro: root_of_Child)
  from txn_id_shared [OF r1, of 7] obtain R where
    R: "lookup two_users 0 = Some (Root R)"
    and g: "txn_id_get two_users 1 = Some (txn_id R)"
    and st: "txn_id_set two_users 1 7 = Some (two_users[0 := Root (R\<lparr>txn_id := 7\<rparr>)])"
    and before: "\<forall>b. root_of two_users b 0 \<longrightarrow> txn_id_get two_users b = Some (txn_id R)"
    and after: "\<forall>b. root_of two_users b 0 \<longrightarrow>
        txn_id_get (two_users[0 := Root (R\<lparr>txn_id := 7\<rparr>)]) b = Some 7"
    by blast
  have "R = ?R"
    using R root by simp
  then have "txn_id R = 0"
    by (simp add: router_def HTTPAPI_init_def)
  with r1 r2 g st before after show ?thesis
    by auto
qed

section \<open>Construction of an Intent\<close>

lemma backtrack_None:
  "backtrack run n = None \<longleftrightarrow>
     (\<forall>k. 1 \<le> k \<and> k \<le> n \<longrightarrow> \<not> (Suc k < length run \<and> run ! k = CHR '':''))"
proof (induction n)
  case 0
  then show ?case by simp
next
  case (Suc n)
  show ?case
  proof (cases "Suc (Suc n) < length run \<and> run ! Suc n = CHR '':''")
    case True
    then have "backtrack run (Suc n) = Some (Suc n)" by simp
    moreover have "\<exists>k. 1 \<le> k \<and> k \<le> Suc n \<and> Suc k < length run \<and> run ! k = CHR '':''"
      using True by (intro exI [of _ "Suc n"]) simp
    ultimately show ?thesis by auto
  next
    case False
    then have "backtrack run (Suc n) = backtrack run n" by auto
    with Suc.IH False show ?thesis
      by (auto simp: le_Suc_eq)
  qed
qed

lemma backtrack_Some:
  "backtrack run n = Some k \<Longrightarrow>
     1 \<le> k \<and> k \<le> n \<and> Suc k < length run \<and> run ! k = CHR '':'' \<and>
     (\<forall>j. k < j \<and> j \<le> n \<longrightarrow> \<not> (Suc j < length run \<and> run ! j = CHR '':''))"
proof (induction n)
  case 0
  then show ?case by simp
next
  case (Suc n)
  show ?case
  proof (cases "Suc (Suc n) < length run \<and> run ! Suc n = CHR '':''")
    case True
    with Suc.prems have "k = Suc n" by (auto split: if_splits)
    with True show ?thesis by auto
  next
    case False
    with Suc.prems have "backtrack run n = Some k" by (auto split: if_splits)
    from Suc.IH [OF this] False show ?thesis
      by (auto simp: le_Suc_eq)
  qed
qed

lemma takeWhile_dot_line:
  "CHR 0x0A \<notin> set xs \<Longrightarrow> takeWhile dot (xs @ ys) = xs @ takeWhile dot ys"
  by (rule takeWhile_append2) (auto simp: dot_def)

lemma match_here_Some:
  assumes "match_here r = Some (g1, g2)"
  shows "g1 \<noteq> [] \<and> g2 \<noteq> [] \<and> CHR 0x0A \<notin> set (g1 @ g2) \<and> (\<exists>q. r = g1 @ CHR '':'' # g2 @ q)"
proof -
  let ?run = "takeWhile dot r"
  from assms obtain k where k: "backtrack ?run (length ?run) = Some k"
    and g: "g1 = take k ?run" "g2 = drop (Suc k) ?run"
    by (auto simp: match_here_def Let_def split: option.splits)
  from backtrack_Some [OF k] have k1: "1 \<le> k" and k2: "Suc k < length ?run"
    and colon: "?run ! k = CHR '':''"
    by simp_all
  have run: "?run = g1 @ CHR '':'' # g2"
    using id_take_nth_drop [of k ?run] k2 colon g by simp
  have "r = ?run @ dropWhile dot r"
    by simp
  with run have r: "r = g1 @ CHR '':'' # g2 @ dropWhile dot r"
    by simp
  have "CHR 0x0A \<notin> set ?run"
    using set_takeWhileD [of "CHR 0x0A" dot r] by (auto simp: dot_def)
  with run have nl: "CHR 0x0A \<notin> set (g1 @ g2)"
    by auto
  have "g1 \<noteq> []" "g2 \<noteq> []"
    using g k1 k2 by auto
  with nl r show ?thesis
    by blast
qed

lemma match_here_exists:
  assumes "l \<noteq> []" and "d \<noteq> []" and "CHR 0x0A \<notin> set (l @ d)"
  shows "match_here (l @ CHR '':'' # d @ q) \<noteq> None"
proof -
  let ?r = "l @ CHR '':'' # d @ q"
  let ?run = "takeWhile dot ?r"
  have "CHR 0x0A \<notin> set (l @ CHR '':'' # d)"
    using assms(3) by auto
  from takeWhile_dot_line [OF this, of q]
  have run: "?run = l @ CHR '':'' # d @ takeWhile dot q"
    by simp
  have "1 \<le> length l" "length l \<le> length ?run" "Suc (length l) < length ?run"
    "?run ! length l = CHR '':''"
    using assms(1,2) by (simp_all add: run Suc_le_eq)
  then have "backtrack ?run (length ?run) \<noteq> None"
    unfolding backtrack_None by blast
  then show ?thesis
    by (auto simp: match_here_def Let_def)
qed

lemma match_here_two_parts:
  assumes "l \<noteq> []" and "d \<noteq> []" and "CHR 0x0A \<notin> set (l @ d)" and "CHR '':'' \<notin> set d"
  shows "match_here (l @ CHR '':'' # d) = Some (l, d)"
proof -
  let ?r = "l @ CHR '':'' # d"
  have nl: "CHR 0x0A \<notin> set ?r"
    using assms(3) by auto
  have run: "takeWhile dot ?r = ?r"
    using takeWhile_dot_line [OF nl, of "[]"] by simp
  from match_here_exists [OF assms(1-3), of "[]"]
  obtain k where k: "backtrack ?r (length ?r) = Some k"
    by (auto simp: match_here_def Let_def run split: option.splits)
  from backtrack_Some [OF k] have colon: "?r ! k = CHR '':''" and k2: "Suc k < length ?r"
    and top: "\<forall>j. k < j \<and> j \<le> length ?r \<longrightarrow> \<not> (Suc j < length ?r \<and> ?r ! j = CHR '':'')"
    by simp_all
  have "\<not> k < length l"
  proof
    assume less: "k < length l"
    have "Suc (length l) < length ?r"
      using assms(2) by (cases d) simp_all
    moreover have "?r ! length l = CHR '':''"
      by simp
    moreover have "length l \<le> length ?r"
      by simp
    ultimately show False
      using top less by blast
  qed
  moreover have "\<not> length l < k"
  proof
    assume less: "length l < k"
    then have "?r ! k = d ! (k - Suc (length l))"
      by (simp add: nth_append nth_Cons')
    moreover have "k - Suc (length l) < length d"
      using less k2 by simp
    ultimately have "CHR '':'' \<in> set d"
      using colon by (metis nth_mem)
    with assms(4) show False ..
  qed
  ultimately have "k = length l"
    by simp
  with k show ?thesis
    by (simp add: match_here_def Let_def run)
qed

lemma search_Some:
  "mxid_regex_search m = Some (g1, g2) \<Longrightarrow>
   g1 \<noteq> [] \<and> g2 \<noteq> [] \<and> CHR 0x0A \<notin> set (g1 @ g2) \<and>
   (\<exists>p q. m = p @ CHR ''@'' # g1 @ CHR '':'' # g2 @ q)"
proof (induction m)
  case Nil
  then show ?case by simp
next
  case (Cons c cs)
  show ?case
  proof (cases "c = CHR ''@'' \<and> match_here cs \<noteq> None")
    case True
    with Cons.prems have "match_here cs = Some (g1, g2)"
      by auto
    from match_here_Some [OF this] obtain q where
      "g1 \<noteq> []" "g2 \<noteq> []" "CHR 0x0A \<notin> set (g1 @ g2)" "cs = g1 @ CHR '':'' # g2 @ q"
      by blast
    with True have "c # cs = [] @ CHR ''@'' # g1 @ CHR '':'' # g2 @ q"
      by simp
    with \<open>g1 \<noteq> []\<close> \<open>g2 \<noteq> []\<close> \<open>CHR 0x0A \<notin> set (g1 @ g2)\<close> show ?thesis
      by blast
  next
    case False
    with Cons.prems have "mxid_regex_search cs = Some (g1, g2)"
      by (auto split: if_splits option.splits)
    from Cons.IH [OF this] obtain p q where
      "g1 \<noteq> []" "g2 \<noteq> []" "CHR 0x0A \<notin> set (g1 @ g2)" "cs = p @ CHR ''@'' # g1 @ CHR '':'' # g2 @ q"
      by blast
    then have "c # cs = (c # p) @ CHR ''@'' # g1 @ CHR '':'' # g2 @ q"
      by simp
    with \<open>g1 \<noteq> []\<close> \<open>g2 \<noteq> []\<close> \<open>CHR 0x0A \<notin> set (g1 @ g2)\<close> show ?thesis
      by blast
  qed
qed

lemma search_exists:
  assumes "l \<noteq> []" and "d \<noteq> []" and "CHR 0x0A \<notin> set (l @ d)"
  shows "mxid_regex_search (p @ CHR ''@'' # l @ CHR '':'' # d @ q) \<noteq> None"
proof (induction p)
  case Nil
  from match_here_exists [OF assms, of q] show ?case
    by (auto split: option.splits)
next
  case (Cons c p)
  then show ?case
    by (auto split: option.splits)
qed

lemma two_part_form_pieces:
  "(\<exists>p t q. m = p @ t @ q \<and> two_part_form t \<and> CHR 0x0A \<notin> set t) \<longleftrightarrow>
   (\<exists>p l d q. m = p @ CHR ''@'' # l @ CHR '':'' # d @ q \<and> l \<noteq> [] \<and> d \<noteq> [] \<and> CHR 0x0A \<notin> set (l @ d))"
  (is "?L \<longleftrightarrow> ?R")
proof
  assume ?L
  then obtain p t q l d where "m = p @ t @ q" "CHR 0x0A \<notin> set t" "l \<noteq> []" "d \<noteq> []"
    "t = CHR ''@'' # l @ CHR '':'' # d"
    by (auto simp: two_part_form_def)
  then have "m = p @ CHR ''@'' # l @ CHR '':'' # d @ q \<and> l \<noteq> [] \<and> d \<noteq> [] \<and> CHR 0x0A \<notin> set (l @ d)"
    by auto
  then show ?R by blast
next
  assume ?R
  then obtain p l d q where m: "m = p @ CHR ''@'' # l @ CHR '':'' # d @ q" and
    ld: "l \<noteq> []" "d \<noteq> []" "CHR 0x0A \<notin> set (l @ d)"
    by blast
  let ?t = "CHR ''@'' # l @ CHR '':'' # d"
  have "m = p @ ?t @ q" using m by simp
  moreover have "two_part_form ?t" using ld by (auto simp: two_part_form_def)
  moreover have "CHR 0x0A \<notin> set ?t" using ld by auto
  ultimately show ?L by blast
qed

text \<open>
  Claim C6, as stated, has the constructor raise for every identifier that is not of the
  two-part form. The pattern is searched for, not matched against the whole identifier:
  \<^verbatim>\<open>x@alice:example.org\<close> does not start with \<^verbatim>\<open>@\<close>, yet the Intent is built, with
  localpart \<^verbatim>\<open>alice\<close>.
\<close>

theorem IntentAPI_init_unanchored_counterexample:
  "\<not> two_part_form ''x@alice:example.org''
   \<and> IntentAPI_init ''x@alice:example.org'' 1 (Some 0) =
       Inr \<lparr>client = 1, bot_api = Some 0, mxid = ''x@alice:example.org'', localpart = ''alice'',
            memberships = Map.empty, registered = False\<rparr>"
  by (simp add: two_part_form_def IntentAPI_init_def match_here_def dot_def Let_def)

text \<open>
  Claim C6, amended. The constructor either raises \<^verbatim>\<open>ValueError("invalid MXID")\<close> or
  returns a fresh Intent (empty cache, not registered) for the identifier. It raises exactly
  when no piece of the identifier is of the two-part form on one line. And for every
  identifier that is \<^verbatim>\<open>@\<close>, \<open>l\<close>, a colon and \<open>d\<close>, with \<open>l\<close> and \<open>d\<close> non-empty and free of
  colons and newlines, it succeeds and records \<open>l\<close> as the localpart.
\<close>

theorem IntentAPI_init_form:
  "(IntentAPI_init m cl b = Inl (ValueError ''invalid MXID'')
      \<or> (\<exists>g. IntentAPI_init m cl b =
            Inr \<lparr>client = cl, bot_api = b, mxid = m, localpart = g,
                 memberships = Map.empty, registered = False\<rparr>))
   \<and> (IntentAPI_init m cl b = Inl (ValueError ''invalid MXID'') \<longleftrightarrow>
        \<not> (\<exists>p t q. m = p @ t @ q \<and> two_part_form t \<and> CHR 0x0A \<notin> set t))
   \<and> (l \<noteq> [] \<and> d \<noteq> [] \<and> CHR 0x0A \<notin> set (l @ d) \<and> CHR '':'' \<notin> set (l @ d) \<longrightarrow>
        two_part_form (CHR ''@'' # l @ CHR '':'' # d) \<and>
        IntentAPI_init (CHR ''@'' # l @ CHR '':'' # d) cl b =
          Inr \<lparr>client = cl, bot_api = b, mxid = CHR ''@'' # l @ CHR '':'' # d, localpart = l,
               memberships = Map.empty, registered = False\<rparr>)"
proof (intro conjI impI)
  show "IntentAPI_init m cl b = Inl (ValueError ''invalid MXID'')
      \<or> (\<exists>g. IntentAPI_init m cl b =
            Inr \<lparr>client = cl, bot_api = b, mxid = m, localpart = g,
                 memberships = Map.empty, registered = False\<rparr>)"
    by (auto simp: IntentAPI_init_def split: option.splits)
next
  have "mxid_regex_search m = None \<longleftrightarrow>
      \<not> (\<exists>p l d q. m = p @ CHR ''@'' # l @ CHR '':'' # d @ q \<and> l \<noteq> [] \<and> d \<noteq> [] \<and> CHR 0x0A \<notin> set (l @ d))"
  proof
    assume "mxid_regex_search m = None"
    then show "\<not> (\<exists>p l d q. m = p @ CHR ''@'' # l @ CHR '':'' # d @ q \<and> l \<noteq> [] \<and> d \<noteq> [] \<and> CHR 0x0A \<notin> set (l @ d))"
      using search_exists by blast
  next
    assume none: "\<not> (\<exists>p l d q. m = p @ CHR ''@'' # l @ CHR '':'' # d @ q \<and> l \<noteq> [] \<and> d \<noteq> [] \<and> CHR 0x0A \<notin> set (l @ d))"
    show "mxid_regex_search m = None"
    proof (cases "mxid_regex_search m")
      case None
      then show ?thesis .
    next
      case (Some g)
      obtain g1 g2 where "g = (g1, g2)" by (cases g)
      with Some search_Some [of m g1 g2] none show ?thesis
        by blast
    qed
  qed
  then show "IntentAPI_init m cl b = Inl (ValueError ''invalid MXID'') \<longleftrightarrow>
        \<not> (\<exists>p t q. m = p @ t @ q \<and> two_part_form t \<and> CHR 0x0A \<notin> set t)"
    unfolding two_part_form_pieces
    by (auto simp: IntentAPI_init_def split: option.splits)
next
  assume "l \<noteq> [] \<and> d \<noteq> [] \<and> CHR 0x0A \<notin> set (l @ d) \<and> CHR '':'' \<notin> set (l @ d)"
  then show "two_part_form (CHR ''@'' # l @ CHR '':'' # d)"
    by (auto simp: two_part_form_def)
next
  assume a: "l \<noteq> [] \<and> d \<noteq> [] \<and> CHR 0x0A \<notin> set (l @ d) \<and> CHR '':'' \<notin> set (l @ d)"
  then have "match_here (l @ CHR '':'' # d) = Some (l, d)"
    by (intro match_here_two_parts) auto
  then show "IntentAPI_init (CHR ''@'' # l @ CHR '':'' # d) cl b =
          Inr \<lparr>client = cl, bot_api = b, mxid = CHR ''@'' # l @ CHR '':'' # d, localpart = l,
               memberships = Map.empty, registered = False\<rparr>"
    by (simp add: IntentAPI_init_def)
qed

theorem IntentAPI_init_form_witness:
  "two_part_form ''@alice:example.org''
   \<and> IntentAPI_init ''@alice:example.org'' 1 (Some 0) =
       Inr \<lparr>client = 1, bot_api = Some 0, mxid = ''@alice:example.org'', localpart = ''alice'',
            memberships = Map.empty, registered = False\<rparr>"
  using IntentAPI_init_form [of "''@alice:example.org''" 1 "Some 0" "''alice''" "''example.org''"]
  by simp

end
